theory Spec2Isabelle
  imports Complex_Main "HOL-Library.Word" "HOL-Library.Sublist"
begin

text \<open>
  The login endpoint of the Express server \<open>backend/server.js\<close>: the handler of
  \<open>POST /api/login\<close> with its input sanitization, its length checks and its credential
  table, behind the limiter \<open>loginLimiter\<close>. The repository also holds an earlier revision
  of the handler, without sanitization and without a limiter, which searches an array of
  records with \<open>find\<close>; the model is of the later revision.
\<close>

section \<open>JavaScript values\<close>

text \<open>
  A JavaScript string is a sequence of UTF-16 code units; \<open>length\<close> counts code units,
  as the \<open>.length\<close> property read by the handler does.
\<close>

type_synonym jsstring = "16 word list"

text \<open>String literals of the source (all ASCII), written as Isabelle strings.\<close>

definition js :: "string \<Rightarrow> jsstring" where
  "js s = map of_char s"

text \<open>
  A number as \<open>JSON.parse\<close> delivers it: a finite value (negative zero is zero here, both
  are falsy), or an infinity for a literal out of range. \<open>NaN\<close> completes the type.
\<close>

datatype jsnumber = Finite rat | PosInfinity | NegInfinity | NaN

text \<open>
  The values a parsed request body can hold. An object is the list of its own properties
  in insertion order, each key once; \<open>JUndefined\<close> is what reading a property that is not
  there gives.
\<close>

datatype jsval =
    JUndefined
  | JNull
  | JBool bool
  | JNum jsnumber
  | JStr jsstring
  | JArr "jsval list"
  | JObj "(jsstring \<times> jsval) list"

text \<open>\<open>ToBoolean\<close>: what \<open>!v\<close>, \<open>if (v)\<close> and \<open>Boolean(v)\<close> test.\<close>

fun truthy :: "jsval \<Rightarrow> bool" where
  "truthy JUndefined = False"
| "truthy JNull = False"
| "truthy (JBool b) = b"
| "truthy (JNum n) = (n \<noteq> Finite 0 \<and> n \<noteq> NaN)"
| "truthy (JStr s) = (s \<noteq> [])"
| "truthy (JArr xs) = True"
| "truthy (JObj ps) = True"

text \<open>\<open>typeof v === 'string'\<close>.\<close>

fun is_string :: "jsval \<Rightarrow> bool" where
  "is_string (JStr s) = True"
| "is_string v = False"

section \<open>Input sanitization\<close>

text \<open>
  \<open>String.prototype.trim\<close> removes white space and line terminators from both ends:
  TAB, LF, VT, FF, CR, SP, NBSP, the Unicode space separators (all in the basic plane),
  LS, PS and the byte order mark.
\<close>

definition is_ws :: "16 word \<Rightarrow> bool" where
  "is_ws c \<longleftrightarrow>
     c = 0x9 \<or> c = 0xA \<or> c = 0xB \<or> c = 0xC \<or> c = 0xD \<or> c = 0x20 \<or> c = 0xA0 \<or>
     c = 0x1680 \<or> (0x2000 \<le> c \<and> c \<le> 0x200A) \<or> c = 0x2028 \<or> c = 0x2029 \<or>
     c = 0x202F \<or> c = 0x205F \<or> c = 0x3000 \<or> c = 0xFEFF"

definition trim :: "jsstring \<Rightarrow> jsstring" where
  "trim s = rev (dropWhile is_ws (rev (dropWhile is_ws s)))"

text \<open>The character class \<open>[<>]\<close> of the regular expression in \<open>sanitizeInput\<close>.\<close>

definition is_angle :: "16 word \<Rightarrow> bool" where
  "is_angle c \<longleftrightarrow> c = 0x3C \<or> c = 0x3E"

text \<open>
  \<^verbatim>\<open>
  function sanitizeInput(str) {
    if (typeof str !== 'string') return '';
    return str.trim().replace(/[<>]/g, '');
  }
  \<close>
\<close>

fun sanitizeInput :: "jsval \<Rightarrow> jsstring" where
  "sanitizeInput (JStr str) = filter (\<lambda>c. \<not> is_angle c) (trim str)"
| "sanitizeInput v = []"

section \<open>Responses\<close>

text \<open>
  What \<open>res.status(n).json(obj)\<close> sends: the status code (200 when \<open>res.json\<close> is called
  alone) and the object serialised as the body.
\<close>

record response =
  status :: nat
  body :: jsval

definition failure :: "nat \<Rightarrow> string \<Rightarrow> string \<Rightarrow> response" where
  "failure code msg fld =
     \<lparr>status = code,
      body = JObj [(js ''success'', JBool False),
                   (js ''message'', JStr (js msg)),
                   (js ''field'', JStr (js fld))]\<rparr>"

section \<open>The credential table\<close>

record credential =
  email :: jsstring
  password :: jsstring
  username :: jsstring

text \<open>
  The \<open>Map\<close> built in the handler, as its entries in insertion order. The keys are
  pairwise different, so \<open>Map.get\<close> is \<open>map_of\<close> on the entries.
\<close>

definition validCredentials :: "(jsstring \<times> credential) list" where
  "validCredentials =
     [(js ''demo@example.com'',
         \<lparr>email = js ''demo@example.com'', password = js ''password123'', username = js ''demo''\<rparr>),
      (js ''admin@example.com'',
         \<lparr>email = js ''admin@example.com'', password = js ''admin123'', username = js ''admin''\<rparr>),
      (js ''test'',
         \<lparr>email = js ''test@example.com'', password = js ''test123'', username = js ''test''\<rparr>),
      (js ''demo'',
         \<lparr>email = js ''demo@example.com'', password = js ''password123'', username = js ''demo''\<rparr>),
      (js ''admin'',
         \<lparr>email = js ''admin@example.com'', password = js ''admin123'', username = js ''admin''\<rparr>)]"

text \<open>
  The \<open>for ... of validCredentials.entries()\<close> loop: the first entry whose record has the
  identifier as email or username and the password, or \<open>null\<close>.
\<close>

fun scan :: "(jsstring \<times> credential) list \<Rightarrow> jsstring \<Rightarrow> jsstring \<Rightarrow> credential option" where
  "scan [] sanitizedEmail sanitizedPassword = None"
| "scan ((key, cred) # rest) sanitizedEmail sanitizedPassword =
     (if (email cred = sanitizedEmail \<or> username cred = sanitizedEmail) \<and>
         password cred = sanitizedPassword
      then Some cred
      else scan rest sanitizedEmail sanitizedPassword)"

text \<open>
  \<^verbatim>\<open>
  const user = validCredentials.get(sanitizedEmail);
  let matchedUser = null;
  if (!user) { for (...) {...} }
  else if (user.password === sanitizedPassword) { matchedUser = user; }
  \<close>
\<close>

definition matchedUser :: "jsstring \<Rightarrow> jsstring \<Rightarrow> credential option" where
  "matchedUser sanitizedEmail sanitizedPassword =
     (case map_of validCredentials sanitizedEmail of
        None \<Rightarrow> scan validCredentials sanitizedEmail sanitizedPassword
      | Some user \<Rightarrow> if password user = sanitizedPassword then Some user else None)"

section \<open>The login handler\<close>

text \<open>The two responses that follow the lookup.\<close>

definition success :: "credential \<Rightarrow> jsval \<Rightarrow> response" where
  "success cred rememberMe' =
     \<lparr>status = 200,
      body = JObj [(js ''success'', JBool True),
                   (js ''message'', JStr (js ''Login successful!'')),
                   (js ''user'', JObj [(js ''email'', JStr (email cred)),
                                       (js ''username'', JStr (username cred)),
                                       (js ''rememberMe'', JBool (truthy rememberMe'))])]\<rparr>"

definition invalid_credentials :: response where
  "invalid_credentials = failure 401 ''Invalid email/username or password'' ''email''"

text \<open>
  The body of the \<open>try\<close> block once \<open>email\<close>, \<open>password\<close> and \<open>rememberMe\<close> are read from
  the request body. The checks are in the order of the source. The artificial delay
  before the response changes no response and is left out.
\<close>

definition login :: "jsval \<Rightarrow> jsval \<Rightarrow> jsval \<Rightarrow> response" where
  "login email' password' rememberMe' =
     (if \<not> truthy email' \<or> \<not> truthy password' then
        failure 400 ''Email/username and password are required''
          (if \<not> truthy email' then ''email'' else ''password'')
      else
        let sanitizedEmail = sanitizeInput email';
            sanitizedPassword = sanitizeInput password'
        in if sanitizedEmail = [] \<or> length sanitizedEmail < 3 then
             failure 400 ''Email/username must be at least 3 characters'' ''email''
           else if sanitizedPassword = [] \<or> length sanitizedPassword < 6 then
             failure 400 ''Password must be at least 6 characters'' ''password''
           else if length sanitizedEmail > 100 \<or> length sanitizedPassword > 100 then
             failure 400 ''Input too long''
               (if length sanitizedEmail > 100 then ''email'' else ''password'')
           else
             (case matchedUser sanitizedEmail sanitizedPassword of
                Some cred \<Rightarrow> success cred rememberMe'
              | None \<Rightarrow> invalid_credentials))"

text \<open>
  Reading a property of the request body. Destructuring \<open>undefined\<close> or \<open>null\<close> throws a
  \<open>TypeError\<close> (\<open>None\<close>); a property that is not there reads as \<open>undefined\<close>.
\<close>

fun get_prop :: "jsval \<Rightarrow> string \<Rightarrow> jsval option" where
  "get_prop JUndefined k = None"
| "get_prop JNull k = None"
| "get_prop (JObj ps) k = (case map_of ps (js k) of None \<Rightarrow> Some JUndefined | Some v \<Rightarrow> Some v)"
| "get_prop v k = Some JUndefined"

text \<open>The \<open>catch\<close> branch of the handler.\<close>

definition internal_error :: response where
  "internal_error = failure 500 ''Internal server error. Please try again later.'' ''email''"

text \<open>The handler of \<open>POST /api/login\<close> on the parsed request body.\<close>

definition login_handler :: "jsval \<Rightarrow> response" where
  "login_handler req_body =
     (case (get_prop req_body ''email'', get_prop req_body ''password'', get_prop req_body ''rememberMe'') of
        (Some email', Some password', Some rememberMe') \<Rightarrow> login email' password' rememberMe'
      | _ \<Rightarrow> internal_error)"

section \<open>The rate limiter in front of the handler\<close>

text \<open>
  The options object passed to \<open>rateLimit\<close> for \<open>loginLimiter\<close>. The field \<open>max\<close> of the
  source is \<open>max_opt\<close> here.
\<close>

record limiter_options =
  windowMs :: nat
  max_opt :: nat
  message :: jsval
  skipSuccessfulRequests :: bool

definition loginLimiter :: limiter_options where
  "loginLimiter =
     \<lparr>windowMs = 15 * 60 * 1000,
      max_opt = 5,
      message = JObj [(js ''success'', JBool False),
                      (js ''message'',
                         JStr (js ''Too many login attempts. Please try again after 15 minutes.'')),
                      (js ''field'', JStr (js ''email''))],
      skipSuccessfulRequests = True\<rparr>"

text \<open>
  What the limiter answers when it does not let a request through: the configured
  \<open>message\<close> as the body. The options set no status code; 429 is the one the interface
  description gives for a rate-limited request.
\<close>

definition rate_limited :: response where
  "rate_limited = \<lparr>status = 429, body = message loginLimiter\<rparr>"

text \<open>
  The route \<open>app.post("/api/login", loginLimiter, handler)\<close>: the handler runs only when
  the limiter lets the request through. The limiter's decision is a parameter here.
\<close>

definition login_route :: "bool \<Rightarrow> jsval \<Rightarrow> response" where
  "login_route admitted req_body =
     (if admitted then login_handler req_body else rate_limited)"

text \<open>
  An attempt names its source address, its time in milliseconds and its request body.
  The state of the limiter holds, for each source address, the times of the attempts
  that count against its quota.
\<close>

record attempt =
  source :: string
  time_ms :: nat
  payload :: jsval

type_synonym limiter_state = "string \<Rightarrow> nat list"

text \<open>
  Modelled from the spec: the function \<open>rateLimit\<close> of the package express-rate-limit,
  which decides when a request is let through, is not part of the sources. The
  specification describes a sliding window per source address, with at most \<open>max\<close> login
  attempts in a window of \<open>windowMs\<close> milliseconds: an attempt is let through when fewer
  than \<open>max\<close> counted attempts of its source lie in the window that ends with it.
\<close>

definition in_window :: "nat \<Rightarrow> nat list \<Rightarrow> nat list" where
  "in_window now ts = filter (\<lambda>t. now < t + windowMs loginLimiter) ts"

definition admits :: "limiter_state \<Rightarrow> attempt \<Rightarrow> bool" where
  "admits st q \<longleftrightarrow> length (in_window (time_ms q) (st (source q))) < max_opt loginLimiter"

text \<open>
  Modelled from the spec: what \<open>rateLimit\<close> counts, its code not being part of the
  sources. Successful logins (status 200) do not count against the quota; every other
  attempt does, also one that the limiter answers itself. A request over the quota is
  answered by the limiter, whatever its credentials.
\<close>

definition login_endpoint :: "limiter_state \<Rightarrow> attempt \<Rightarrow> limiter_state \<times> response" where
  "login_endpoint st q =
     (let r = login_route (admits st q) (payload q)
      in (if skipSuccessfulRequests loginLimiter \<and> status r = 200 then st
          else st(source q := time_ms q # st (source q)),
          r))"

text \<open>
  A sequence of attempts served one after the other; the log keeps, for each attempt,
  whether it was let through to the handler and the response it got.
\<close>

fun serve :: "limiter_state \<Rightarrow> attempt list \<Rightarrow> (attempt \<times> bool \<times> response) list \<times> limiter_state" where
  "serve st [] = ([], st)"
| "serve st (q # qs) =
     (let (st', r) = login_endpoint st q;
          (entries, st'') = serve st' qs
      in ((q, admits st q, r) # entries, st''))"

text \<open>
  The attempts of a log that came from a source, were let through to the handler, did not
  succeed, and lie in the window that ends at time \<open>T\<close>.
\<close>

definition charged :: "string \<Rightarrow> nat \<Rightarrow> (attempt \<times> bool \<times> response) list \<Rightarrow> attempt list" where
  "charged a T entries =
     map fst (filter (\<lambda>(q, admitted, r). source q = a \<and> admitted \<and> status r \<noteq> 200 \<and>
                                        time_ms q \<le> T \<and> T < time_ms q + windowMs loginLimiter) entries)"

section \<open>Notions of the specification\<close>

text \<open>
  A request passes validation when both fields are there and both sanitized lengths are
  within the bounds of the handler.
\<close>

definition passes_validation :: "jsval \<Rightarrow> jsval \<Rightarrow> bool" where
  "passes_validation e p \<longleftrightarrow>
     truthy e \<and> truthy p \<and>
     3 \<le> length (sanitizeInput e) \<and> length (sanitizeInput e) \<le> 100 \<and>
     6 \<le> length (sanitizeInput p) \<and> length (sanitizeInput p) \<le> 100"

text \<open>
  The records an identifier names in the credential table: by the key of an entry, or by
  the email or the username of its record. An identifier is known when it names a record;
  a password is wrong for it when no record it names has that password.
\<close>

definition accounts :: "jsstring \<Rightarrow> credential list" where
  "accounts i =
     map snd (filter (\<lambda>(key, cred). key = i \<or> email cred = i \<or> username cred = i) validCredentials)"

definition known_identifier :: "jsstring \<Rightarrow> bool" where
  "known_identifier i \<longleftrightarrow> accounts i \<noteq> []"

definition wrong_password :: "jsstring \<Rightarrow> jsstring \<Rightarrow> bool" where
  "wrong_password i pw \<longleftrightarrow> (\<forall>cred \<in> set (accounts i). password cred \<noteq> pw)"

text \<open>
  The single uniform lookup of the specification: the first record of the table whose
  email or username is the identifier and whose password is the one submitted. It is the
  \<open>find\<close> of the earlier revision of the handler, on the records of the table.
\<close>

definition uniform_lookup :: "jsstring \<Rightarrow> jsstring \<Rightarrow> credential option" where
  "uniform_lookup i pw =
     find (\<lambda>cred. (email cred = i \<or> username cred = i) \<and> password cred = pw)
       (map snd validCredentials)"





text \<open>How many of the times \<open>ts\<close> lie in the window that ends at \<open>T\<close>.\<close>

definition window_count :: "nat \<Rightarrow> nat list \<Rightarrow> nat" where
  "window_count T ts = length (filter (\<lambda>t. t \<le> T \<and> T < t + windowMs loginLimiter) ts)"

text \<open>
  The body of a request that carries an email and a password, both strings, and an
  attempt with such a body.
\<close>

definition login_request :: "string \<Rightarrow> string \<Rightarrow> jsval" where
  "login_request e p = JObj [(js ''email'', JStr (js e)), (js ''password'', JStr (js p))]"

definition login_attempt :: "string \<Rightarrow> nat \<Rightarrow> string \<Rightarrow> string \<Rightarrow> attempt" where
  "login_attempt a t e p = \<lparr>source = a, time_ms = t, payload = login_request e p\<rparr>"

section \<open>Evaluating literals\<close>

lemma unat_of_char16: "unat (of_char c :: 16 word) = of_char c"
proof -
  have "unat (word_of_nat (of_char c) :: 16 word) = of_char c mod 2 ^ 16"
    by (simp add: unat_of_nat)
  moreover have "(of_char c :: nat) < 2 ^ 16"
    by (rule less_trans [OF nat_of_char_less_256]) simp
  ultimately show ?thesis
    by (simp add: of_nat_of_char)
qed

lemma inj_of_char16: "inj (of_char :: char \<Rightarrow> 16 word)"
proof (rule injI)
  fix c d :: char
  assume "(of_char c :: 16 word) = of_char d"
  then have "unat (of_char c :: 16 word) = unat (of_char d :: 16 word)"
    by simp
  then show "c = d"
    by (simp add: unat_of_char16)
qed

lemma js_eq_iff [simp]: "js a = js b \<longleftrightarrow> a = b"
  by (simp add: js_def inj_map_eq_map [OF inj_of_char16])


lemmas eval_defs =
  login_def matchedUser_def validCredentials_def trim_def is_ws_def is_angle_def js_def

section \<open>The lookup\<close>

lemma scan_None:
  "(\<forall>(key, cred) \<in> set xs. (email cred = i \<or> username cred = i) \<longrightarrow> password cred \<noteq> pw)
   \<Longrightarrow> scan xs i pw = None"
  by (induction xs) auto

lemma matchedUser_None:
  assumes "wrong_password i pw"
  shows "matchedUser i pw = None"
proof (cases "map_of validCredentials i")
  case None
  have "\<forall>(key, cred) \<in> set validCredentials.
          (email cred = i \<or> username cred = i) \<longrightarrow> password cred \<noteq> pw"
    using assms by (auto simp: wrong_password_def accounts_def)
  then show ?thesis
    using None by (simp add: matchedUser_def scan_None)
next
  case (Some user)
  then have "(i, user) \<in> set validCredentials"
    by (rule map_of_SomeD)
  then have "user \<in> set (accounts i)"
    by (force simp: accounts_def)
  then have "password user \<noteq> pw"
    using assms by (simp add: wrong_password_def)
  then show ?thesis
    using Some by (simp add: matchedUser_def)
qed

lemma login_validated:
  "passes_validation e p \<Longrightarrow>
   login e p rm = (case matchedUser (sanitizeInput e) (sanitizeInput p) of
                     Some cred \<Rightarrow> success cred rm | None \<Rightarrow> invalid_credentials)"
  by (auto simp: passes_validation_def login_def Let_def)

section \<open>Claims about the handler\<close>

text \<open>
  C1. Submitting the identifier "demo" with the password "password123" gives status 200
  and a success body whose user object has exactly the members email, username and
  rememberMe, in that order, with username "demo"; there is no password member. This
  holds for every value of rememberMe in the request, which the response turns into a
  boolean; for the request body that holds the two strings and nothing else, rememberMe
  is false.
\<close>

theorem login_demo_success:
  "login (JStr (js ''demo'')) (JStr (js ''password123'')) rm =
     \<lparr>status = 200,
      body = JObj [(js ''success'', JBool True),
                   (js ''message'', JStr (js ''Login successful!'')),
                   (js ''user'', JObj [(js ''email'', JStr (js ''demo@example.com'')),
                                       (js ''username'', JStr (js ''demo'')),
                                       (js ''rememberMe'', JBool (truthy rm))])]\<rparr> \<and>
   login_handler (login_request ''demo'' ''password123'') =
     login (JStr (js ''demo'')) (JStr (js ''password123'')) JUndefined"
proof -
  have "login_handler (login_request ''demo'' ''password123'') =
      login (JStr (js ''demo'')) (JStr (js ''password123'')) JUndefined"
    by (simp add: login_handler_def login_request_def)
  then show ?thesis
    by (simp add: eval_defs success_def)
qed

theorem login_demo_success_witness:
  "status (login_handler (login_request ''demo'' ''password123'')) = 200 \<and>
   get_prop (body (login_handler (login_request ''demo'' ''password123''))) ''user'' =
     Some (JObj [(js ''email'', JStr (js ''demo@example.com'')),
                 (js ''username'', JStr (js ''demo'')),
                 (js ''rememberMe'', JBool False)])"
  using login_demo_success [of JUndefined] by simp

text \<open>
  C2. Take two requests that pass validation: one whose sanitized identifier names no
  record of the credential table, one whose sanitized identifier names a record but whose
  sanitized password is that of no record it names. Their responses are equal, whatever
  the rememberMe members: status 401, the message "Invalid email/username or password"
  and the field "email".
\<close>

theorem invalid_credentials_indistinguishable:
  assumes "passes_validation e1 p1" and "passes_validation e2 p2"
    and "\<not> known_identifier (sanitizeInput e1)"
    and "known_identifier (sanitizeInput e2)"
    and "wrong_password (sanitizeInput e2) (sanitizeInput p2)"
  shows "login e1 p1 rm1 = login e2 p2 rm2 \<and>
         login e1 p1 rm1 = failure 401 ''Invalid email/username or password'' ''email''"
proof -
  have "wrong_password (sanitizeInput e1) (sanitizeInput p1)"
    using assms(3) by (simp add: known_identifier_def wrong_password_def)
  then show ?thesis
    using assms by (simp add: login_validated matchedUser_None invalid_credentials_def)
qed

theorem invalid_credentials_indistinguishable_witness:
  "passes_validation (JStr (js ''nobody'')) (JStr (js ''password123'')) \<and>
   passes_validation (JStr (js ''demo@example.com'')) (JStr (js ''letmein1'')) \<and>
   \<not> known_identifier (sanitizeInput (JStr (js ''nobody''))) \<and>
   known_identifier (sanitizeInput (JStr (js ''demo@example.com''))) \<and>
   wrong_password (sanitizeInput (JStr (js ''demo@example.com'')))
     (sanitizeInput (JStr (js ''letmein1''))) \<and>
   login (JStr (js ''nobody'')) (JStr (js ''password123'')) JUndefined =
     login (JStr (js ''demo@example.com'')) (JStr (js ''letmein1'')) (JBool True) \<and>
   status (login (JStr (js ''nobody'')) (JStr (js ''password123'')) JUndefined) = 401"
proof -
  have v1: "passes_validation (JStr (js ''nobody'')) (JStr (js ''password123''))"
    by (simp add: passes_validation_def eval_defs)
  have v2: "passes_validation (JStr (js ''demo@example.com'')) (JStr (js ''letmein1''))"
    by (simp add: passes_validation_def eval_defs)
  have u: "\<not> known_identifier (sanitizeInput (JStr (js ''nobody'')))"
    by (simp add: known_identifier_def accounts_def eval_defs)
  have k: "known_identifier (sanitizeInput (JStr (js ''demo@example.com'')))"
    by (simp add: known_identifier_def accounts_def eval_defs)
  have w: "wrong_password (sanitizeInput (JStr (js ''demo@example.com'')))
             (sanitizeInput (JStr (js ''letmein1'')))"
    by (simp add: wrong_password_def accounts_def eval_defs)
  note r = invalid_credentials_indistinguishable [OF v1 v2 u k w, of JUndefined "JBool True"]
  have "status (login (JStr (js ''nobody'')) (JStr (js ''password123'')) JUndefined) = 401"
    by (simp add: r [THEN conjunct2] failure_def)
  then show ?thesis
    using r [THEN conjunct1] v1 v2 u k w by blast
qed






text \<open>
  C5. With both fields present: a sanitized identifier of fewer than 3 characters gives
  400 with field "email", whatever the password; a sanitized password of fewer than 6
  characters gives 400 with field "password" once the identifier has at least 3.
\<close>

theorem minimum_lengths:
  assumes "truthy e" and "truthy p"
  shows "(length (sanitizeInput e) < 3 \<longrightarrow>
            login e p rm = failure 400 ''Email/username must be at least 3 characters'' ''email'') \<and>
         (3 \<le> length (sanitizeInput e) \<and> length (sanitizeInput p) < 6 \<longrightarrow>
            login e p rm = failure 400 ''Password must be at least 6 characters'' ''password'')"
  using assms by (auto simp add: login_def Let_def)

theorem minimum_lengths_witness:
  "truthy (JStr (js ''ab'')) \<and> truthy (JStr (js ''abc'')) \<and>
   length (sanitizeInput (JStr (js ''ab''))) < 3 \<and>
   login (JStr (js ''ab'')) (JStr (js ''abc'')) JUndefined =
     failure 400 ''Email/username must be at least 3 characters'' ''email'' \<and>
   truthy (JStr (js ''demo'')) \<and>
   3 \<le> length (sanitizeInput (JStr (js ''demo''))) \<and>
   length (sanitizeInput (JStr (js ''abc''))) < 6 \<and>
   login (JStr (js ''demo'')) (JStr (js ''abc'')) JUndefined =
     failure 400 ''Password must be at least 6 characters'' ''password''"
proof -
  have t: "truthy (JStr (js ''ab''))" "truthy (JStr (js ''abc''))" "truthy (JStr (js ''demo''))"
    by (simp_all add: js_def)
  have l: "length (sanitizeInput (JStr (js ''ab''))) < 3"
    "3 \<le> length (sanitizeInput (JStr (js ''demo'')))"
    "length (sanitizeInput (JStr (js ''abc''))) < 6"
    by (simp_all add: eval_defs)
  show ?thesis
    using minimum_lengths [OF t(1) t(2), of JUndefined]
      minimum_lengths [OF t(3) t(2), of JUndefined] t l
    by simp
qed

text \<open>
  C6. When the sanitized identifier or the sanitized password has more than 100
  characters, the response has status 400, whatever the other field is.
\<close>

theorem oversized_rejected:
  assumes "length (sanitizeInput e) > 100 \<or> length (sanitizeInput p) > 100"
  shows "status (login e p rm) = 400"
  using assms by (auto simp add: login_def Let_def failure_def)

theorem oversized_rejected_witness:
  "length (sanitizeInput (JStr (replicate 101 0x61))) > 100 \<and>
   status (login (JStr (replicate 101 0x61)) (JStr (js ''password123'')) JUndefined) = 400 \<and>
   length (sanitizeInput (JStr (replicate 101 0x61))) > 100 \<and>
   status (login (JStr (js ''demo'')) (JStr (replicate 101 0x61)) JUndefined) = 400 \<and>
   status (login JUndefined (JStr (replicate 101 0x61)) JUndefined) = 400"
proof -
  have l: "length (sanitizeInput (JStr (replicate 101 0x61))) > 100"
    by (simp add: trim_def is_ws_def is_angle_def)
  show ?thesis
    using l oversized_rejected [of "JStr (replicate 101 0x61)" "JStr (js ''password123'')" JUndefined]
      oversized_rejected [of "JStr (js ''demo'')" "JStr (replicate 101 0x61)" JUndefined]
      oversized_rejected [of JUndefined "JStr (replicate 101 0x61)" JUndefined]
    by blast
qed

section \<open>Sanitization\<close>

lemma rev_dropWhile_decomp: "xs = rev (dropWhile P (rev xs)) @ rev (takeWhile P (rev xs))"
proof -
  have "rev (takeWhile P (rev xs) @ dropWhile P (rev xs)) = xs"
    by (simp only: takeWhile_dropWhile_id rev_rev_ident)
  then show ?thesis
    by (simp only: rev_append)
qed

lemma last_dropWhile_eq: "dropWhile P ys \<noteq> [] \<Longrightarrow> last (dropWhile P ys) = last ys"
proof -
  assume ne: "dropWhile P ys \<noteq> []"
  have "last (takeWhile P ys @ dropWhile P ys) = last (dropWhile P ys)"
    using ne by (rule last_appendR)
  then show ?thesis
    by (simp only: takeWhile_dropWhile_id)
qed

text \<open>What \<open>trim\<close> removes is white space at the two ends, and it removes all of it.\<close>

lemma trim_decomp:
  "\<exists>pre suf. s = pre @ trim s @ suf \<and> (\<forall>c \<in> set pre. is_ws c) \<and> (\<forall>c \<in> set suf. is_ws c)"
proof -
  let ?a = "takeWhile is_ws s"
  let ?m = "dropWhile is_ws s"
  let ?b = "rev (takeWhile is_ws (rev ?m))"
  have "?m = trim s @ ?b"
    unfolding trim_def by (rule rev_dropWhile_decomp)
  then have "s = ?a @ trim s @ ?b"
    using takeWhile_dropWhile_id [of is_ws s] by simp
  moreover have "\<forall>c \<in> set ?a. is_ws c"
    by (auto dest: set_takeWhileD)
  moreover have "\<forall>c \<in> set ?b. is_ws c"
    by (auto dest: set_takeWhileD)
  ultimately show ?thesis
    by blast
qed

lemma trim_ends:
  assumes ne: "trim s \<noteq> []"
  shows "\<not> is_ws (hd (trim s)) \<and> \<not> is_ws (last (trim s))"
proof -
  let ?m = "dropWhile is_ws s"
  let ?r = "dropWhile is_ws (rev ?m)"
  have r: "?r \<noteq> []"
    using ne by (simp add: trim_def)
  then have "\<not> is_ws (hd ?r)"
    by (rule hd_dropWhile)
  then have l: "\<not> is_ws (last (trim s))"
    using r by (simp add: trim_def last_rev)
  have m: "?m \<noteq> []"
  proof
    assume "?m = []"
    then have "?r = []"
      by (simp only: rev.simps dropWhile.simps)
    with r show False ..
  qed
  then have h: "\<not> is_ws (hd ?m)"
    by (rule hd_dropWhile)
  have "hd (trim s) = last ?r"
    using r by (simp add: trim_def hd_rev)
  also have "\<dots> = last (rev ?m)"
    using r by (rule last_dropWhile_eq)
  also have "\<dots> = hd ?m"
    using m by (simp add: last_rev)
  finally show ?thesis
    using h l by simp
qed

lemma sanitizeInput_non_string: "\<not> is_string v \<Longrightarrow> sanitizeInput v = []"
  by (cases v) simp_all

text \<open>
  C7. For a string \<open>s\<close>, \<open>sanitizeInput\<close> first trims: \<open>s\<close> is white space, then \<open>trim s\<close>,
  then white space, and \<open>trim s\<close> neither starts nor ends with white space. It then drops
  every '<' (code unit 0x3C) and every '>' (0x3E) from the trimmed string and keeps the
  rest in order. Every check after the required-fields test and the credential
  comparison read the sanitized values only: two requests with both fields present whose
  sanitized identifiers agree and whose sanitized passwords agree get the same response.
\<close>

theorem sanitize_trims_then_strips:
  "(\<exists>pre suf. s = pre @ trim s @ suf \<and> (\<forall>c \<in> set pre. is_ws c) \<and> (\<forall>c \<in> set suf. is_ws c)) \<and>
   (trim s \<noteq> [] \<longrightarrow> \<not> is_ws (hd (trim s)) \<and> \<not> is_ws (last (trim s))) \<and>
   sanitizeInput (JStr s) = filter (\<lambda>c. c \<noteq> 0x3C \<and> c \<noteq> 0x3E) (trim s) \<and>
   (truthy e \<and> truthy p \<and> truthy e' \<and> truthy p' \<and>
    sanitizeInput e = sanitizeInput e' \<and> sanitizeInput p = sanitizeInput p' \<longrightarrow>
      login e p rm = login e' p' rm)"
proof -
  have "sanitizeInput (JStr s) = filter (\<lambda>c. c \<noteq> 0x3C \<and> c \<noteq> 0x3E) (trim s)"
    by (simp add: is_angle_def)
  moreover have "truthy e \<and> truthy p \<and> truthy e' \<and> truthy p' \<and>
      sanitizeInput e = sanitizeInput e' \<and> sanitizeInput p = sanitizeInput p' \<longrightarrow>
      login e p rm = login e' p' rm"
    by (simp add: login_def)
  ultimately show ?thesis
    using trim_decomp [of s] trim_ends [of s] by blast
qed

theorem sanitize_trims_then_strips_witness:
  "trim (js '' <b>demo  '') = js ''<b>demo'' \<and>
   sanitizeInput (JStr (js '' <b>demo  '')) = js ''bdemo'' \<and>
   truthy (JStr (js '' <demo> '')) \<and> truthy (JStr (js ''password123 '')) \<and>
   sanitizeInput (JStr (js '' <demo> '')) = sanitizeInput (JStr (js ''demo'')) \<and>
   sanitizeInput (JStr (js ''password123 '')) = sanitizeInput (JStr (js ''password123'')) \<and>
   login (JStr (js '' <demo> '')) (JStr (js ''password123 '')) JUndefined =
     login (JStr (js ''demo'')) (JStr (js ''password123'')) JUndefined"
proof -
  have t: "trim (js '' <b>demo  '') = js ''<b>demo''"
    by (simp add: trim_def is_ws_def js_def)
  have s: "sanitizeInput (JStr (js '' <b>demo  '')) = js ''bdemo''"
    by (simp add: trim_def is_ws_def is_angle_def js_def)
  have h: "truthy (JStr (js '' <demo> ''))" "truthy (JStr (js ''password123 ''))"
    "truthy (JStr (js ''demo''))" "truthy (JStr (js ''password123''))"
    "sanitizeInput (JStr (js '' <demo> '')) = sanitizeInput (JStr (js ''demo''))"
    "sanitizeInput (JStr (js ''password123 '')) = sanitizeInput (JStr (js ''password123''))"
    by (simp_all add: trim_def is_ws_def is_angle_def js_def)
  show ?thesis
    using t s h
      sanitize_trims_then_strips [of "js '' <b>demo  ''" "JStr (js '' <demo> '')"
        "JStr (js ''password123 '')" "JStr (js ''demo'')" "JStr (js ''password123'')" JUndefined]
    by blast
qed

text \<open>
  C8. On the credential table of the handler, the two-path lookup (\<open>Map.get\<close> by the
  identifier with a password test, or the scan over the entries when the key misses) and
  the single uniform lookup give the same result for every identifier and password: both
  find nothing, or both find the same record.
\<close>

theorem two_path_lookup_uniform:
  "matchedUser i pw = uniform_lookup i pw"
  by (auto simp: matchedUser_def uniform_lookup_def validCredentials_def)

theorem two_path_lookup_uniform_witness:
  "matchedUser (js ''test@example.com'') (js ''test123'') =
     Some \<lparr>email = js ''test@example.com'', password = js ''test123'', username = js ''test''\<rparr> \<and>
   uniform_lookup (js ''test@example.com'') (js ''test123'') =
     Some \<lparr>email = js ''test@example.com'', password = js ''test123'', username = js ''test''\<rparr> \<and>
   uniform_lookup (js ''admin'') (js ''password123'') = None"
proof -
  have "matchedUser (js ''test@example.com'') (js ''test123'') =
     Some \<lparr>email = js ''test@example.com'', password = js ''test123'', username = js ''test''\<rparr>"
    by (simp add: matchedUser_def validCredentials_def)
  moreover have "matchedUser (js ''admin'') (js ''password123'') = None"
    by (simp add: matchedUser_def validCredentials_def)
  ultimately show ?thesis
    using two_path_lookup_uniform [of "js ''test@example.com''" "js ''test123''"]
      two_path_lookup_uniform [of "js ''admin''" "js ''password123''"]
    by simp
qed

text \<open>
  C10. When the email or the password of a request is a truthy value that is not a
  string, the handler does not answer with success: the response is 400 and its body says
  \<open>success: false\<close>. \<open>sanitizeInput\<close> gives the empty string for a value that is not a
  string, and when both fields are present it is a minimum-length check that rejects the
  request, before the credential table is read (when the other field is absent the
  required-fields check, which comes first, gives the 400).
\<close>

theorem non_string_rejected:
  assumes "(truthy e \<and> \<not> is_string e) \<or> (truthy p \<and> \<not> is_string p)"
  shows "status (login e p rm) = 400 \<and>
         get_prop (body (login e p rm)) ''success'' = Some (JBool False) \<and>
         get_prop (body (login e p rm)) ''user'' = Some JUndefined \<and>
         (\<not> is_string e \<longrightarrow> sanitizeInput e = []) \<and>
         (\<not> is_string p \<longrightarrow> sanitizeInput p = []) \<and>
         (truthy e \<and> truthy p \<longrightarrow>
            login e p rm =
              (if length (sanitizeInput e) < 3
               then failure 400 ''Email/username must be at least 3 characters'' ''email''
               else failure 400 ''Password must be at least 6 characters'' ''password''))"
  using assms by (auto simp add: login_def Let_def failure_def sanitizeInput_non_string)

theorem non_string_rejected_witness:
  "truthy (JNum (Finite 5)) \<and> \<not> is_string (JNum (Finite 5)) \<and>
   login (JNum (Finite 5)) (JStr (js ''password123'')) JUndefined =
     failure 400 ''Email/username must be at least 3 characters'' ''email'' \<and>
   truthy (JArr []) \<and> \<not> is_string (JArr []) \<and>
   login (JStr (js ''demo'')) (JArr []) JUndefined =
     failure 400 ''Password must be at least 6 characters'' ''password'' \<and>
   status (login (JObj []) JUndefined JUndefined) = 400"
proof -
  have t: "truthy (JStr (js ''password123''))" "truthy (JStr (js ''demo''))"
    "\<not> length (sanitizeInput (JStr (js ''demo''))) < 3"
    by (simp_all add: eval_defs)
  show ?thesis
    using t non_string_rejected [of "JNum (Finite 5)" "JStr (js ''password123'')" JUndefined]
      non_string_rejected [of "JStr (js ''demo'')" "JArr []" JUndefined]
      non_string_rejected [of "JObj []" JUndefined JUndefined]
    by simp
qed

section \<open>What a response body holds\<close>













section \<open>The rate limiter\<close>

lemma fst_serve_Cons:
  "fst (serve st (q # qs)) =
     (q, admits st q, snd (login_endpoint st q)) # fst (serve (fst (login_endpoint st q)) qs)"
  by (simp add: split_beta)

lemma snd_serve_Cons:
  "snd (serve st (q # qs)) = snd (serve (fst (login_endpoint st q)) qs)"
  by (simp add: split_beta)

lemma snd_login_endpoint: "snd (login_endpoint st q) = login_route (admits st q) (payload q)"
  by (simp add: login_endpoint_def Let_def)

lemma fst_login_endpoint:
  "fst (login_endpoint st q) =
     (if status (login_route (admits st q) (payload q)) = 200 then st
      else st(source q := time_ms q # st (source q)))"
  by (simp add: login_endpoint_def Let_def loginLimiter_def)

text \<open>A counted time in the window that ends at \<open>T\<close> is in the window of any \<open>now \<le> T\<close>.\<close>

lemma window_count_le_in_window:
  "now \<le> T \<Longrightarrow> window_count T ts \<le> length (in_window now ts)"
proof -
  assume "now \<le> T"
  then have "filter (\<lambda>t. t \<le> T \<and> T < t + windowMs loginLimiter) ts =
        filter (\<lambda>t. t \<le> T \<and> T < t + windowMs loginLimiter) (in_window now ts)"
    by (auto simp: in_window_def intro!: filter_cong)
  then show ?thesis
    by (simp add: window_count_def)
qed

lemma charged_Cons:
  "charged a T ((q, adm, r) # entries) =
     (if source q = a \<and> adm \<and> status r \<noteq> 200 \<and>
         time_ms q \<le> T \<and> T < time_ms q + windowMs loginLimiter
      then q # charged a T entries else charged a T entries)"
  by (simp add: charged_def)

text \<open>
  The invariant of the quota: what the state already counts in a window, together with
  what is let through and fails in it later, stays within the quota (or within what the
  state held to begin with).
\<close>

lemma charged_bound_gen:
  "window_count T (st a) + length (charged a T (fst (serve st qs)))
     \<le> max (max_opt loginLimiter) (window_count T (st a))"
proof (induction qs arbitrary: st)
  case Nil
  then show ?case
    by (simp add: charged_def)
next
  case (Cons q qs)
  let ?r = "login_route (admits st q) (payload q)"
  let ?st' = "fst (login_endpoint st q)"
  note IH = Cons.IH [of ?st']
  show ?case
  proof (cases "source q = a \<and> status ?r \<noteq> 200 \<and>
                time_ms q \<le> T \<and> T < time_ms q + windowMs loginLimiter")
    case False
    then have "window_count T (?st' a) = window_count T (st a)"
      by (auto simp: fst_login_endpoint window_count_def)
    moreover have "charged a T (fst (serve st (q # qs))) = charged a T (fst (serve ?st' qs))"
      using False
      by (auto simp: fst_serve_Cons charged_Cons snd_login_endpoint simp del: serve.simps)
    ultimately show ?thesis
      using IH by simp
  next
    case True
    then have w: "window_count T (?st' a) = Suc (window_count T (st a))"
      by (simp add: fst_login_endpoint window_count_def)
    show ?thesis
    proof (cases "admits st q")
      case adm: True
      have "window_count T (st a) \<le> length (in_window (time_ms q) (st a))"
        using True by (simp add: window_count_le_in_window)
      then have "window_count T (st a) < max_opt loginLimiter"
        using adm True by (simp add: admits_def)
      moreover have "charged a T (fst (serve st (q # qs))) =
          q # charged a T (fst (serve ?st' qs))"
        using True adm
        by (simp add: fst_serve_Cons charged_Cons snd_login_endpoint del: serve.simps)
      ultimately show ?thesis
        using IH w by simp
    next
      case False
      then have "charged a T (fst (serve st (q # qs))) = charged a T (fst (serve ?st' qs))"
        by (simp add: fst_serve_Cons charged_Cons del: serve.simps)
      then show ?thesis
        using IH w by (simp add: max_def split: if_splits)
    qed
  qed
qed

lemma charged_bound: "length (charged a T (fst (serve st qs))) \<le> max_opt loginLimiter"
  using charged_bound_gen [of T st a qs] by (simp add: max_def split: if_splits)

lemma route_not_200:
  "status (login_handler b) \<noteq> 200 \<Longrightarrow> status (login_route adm b) \<noteq> 200"
  by (simp add: login_route_def rate_limited_def)

lemma serve_counts_all:
  "\<forall>q \<in> set qs. source q = a \<and> status (login_handler (payload q)) \<noteq> 200 \<Longrightarrow>
   snd (serve st qs) a = rev (map time_ms qs) @ st a"
proof (induction qs arbitrary: st)
  case Nil
  then show ?case
    by simp
next
  case (Cons q qs)
  then have "fst (login_endpoint st q) a = time_ms q # st a"
    by (simp add: fst_login_endpoint route_not_200)
  then show ?case
    using Cons by (simp add: snd_serve_Cons del: serve.simps)
qed

lemma serve_append:
  "fst (serve st (xs @ ys)) = fst (serve st xs) @ fst (serve (snd (serve st xs)) ys)"
  by (induction xs arbitrary: st) (simp_all add: split_beta)

lemma over_quota_rejected:
  assumes "\<forall>q \<in> set qs. source q = a \<and> status (login_handler (payload q)) \<noteq> 200 \<and>
                time_ms q' < time_ms q + windowMs loginLimiter"
    and "length qs = max_opt loginLimiter" and "source q' = a"
  shows "fst (serve st (qs @ [q'])) = fst (serve st qs) @ [(q', False, rate_limited)]"
proof -
  let ?st = "snd (serve st qs)"
  have "?st a = rev (map time_ms qs) @ st a"
    using assms(1) by (simp add: serve_counts_all)
  moreover have "in_window (time_ms q') (rev (map time_ms qs)) = rev (map time_ms qs)"
    using assms(1) by (simp add: in_window_def)
  ultimately have "length (in_window (time_ms q') (?st a)) \<ge> length qs"
    by (simp add: in_window_def)
  then have "\<not> admits ?st q'"
    using assms(2,3) by (simp add: admits_def)
  then show ?thesis
    by (simp add: serve_append snd_login_endpoint login_route_def split_beta)
qed

lemma success_not_counted:
  "admits st q \<Longrightarrow> status (login_handler (payload q)) = 200 \<Longrightarrow>
   login_endpoint st q = (st, login_handler (payload q))"
  by (simp add: login_endpoint_def Let_def login_route_def loginLimiter_def)

text \<open>
  C9. The limiter is configured with a quota of 5 and a window of 15 minutes (900000 ms).
  In the model of the limiter, from any state and for any sequence of attempts:
  for every source address and every window of 15 minutes, at most 5 attempts of that
  source in the window are let through to the handler and fail (the attempts that count
  against the quota); an attempt that is let through and succeeds leaves the state of the
  limiter as it was; and after 5 attempts of one source that do not succeed, a further
  attempt of that source that lies within 15 minutes of each of them is answered by the
  limiter, whatever its credentials: status 429, field "email" and the message that asks
  to try again after 15 minutes.
\<close>

theorem login_quota:
  "windowMs loginLimiter = 900000 \<and> max_opt loginLimiter = 5 \<and>
   length (charged a T (fst (serve st qs))) \<le> 5 \<and>
   (admits st q \<and> status (login_handler (payload q)) = 200 \<longrightarrow>
      login_endpoint st q = (st, login_handler (payload q))) \<and>
   (length qs = 5 \<and> source q' = a \<and>
    (\<forall>q \<in> set qs. source q = a \<and> status (login_handler (payload q)) \<noteq> 200 \<and>
                   time_ms q' < time_ms q + 900000) \<longrightarrow>
      fst (serve st (qs @ [q'])) = fst (serve st qs) @ [(q', False, rate_limited)]) \<and>
   rate_limited =
     \<lparr>status = 429,
      body = JObj [(js ''success'', JBool False),
                   (js ''message'',
                      JStr (js ''Too many login attempts. Please try again after 15 minutes.'')),
                   (js ''field'', JStr (js ''email''))]\<rparr>"
proof -
  have c: "windowMs loginLimiter = 900000" "max_opt loginLimiter = 5"
    by (simp_all add: loginLimiter_def)
  have "length (charged a T (fst (serve st qs))) \<le> 5"
    using charged_bound [of a T st qs] c by simp
  moreover have "fst (serve st (qs @ [q'])) = fst (serve st qs) @ [(q', False, rate_limited)]"
    if "length qs = 5 \<and> source q' = a \<and>
        (\<forall>q \<in> set qs. source q = a \<and> status (login_handler (payload q)) \<noteq> 200 \<and>
                       time_ms q' < time_ms q + 900000)"
    using that c by (intro over_quota_rejected [of qs a q' st]) simp_all
  moreover have "rate_limited =
     \<lparr>status = 429,
      body = JObj [(js ''success'', JBool False),
                   (js ''message'',
                      JStr (js ''Too many login attempts. Please try again after 15 minutes.'')),
                   (js ''field'', JStr (js ''email''))]\<rparr>"
    by (simp add: rate_limited_def loginLimiter_def)
  ultimately show ?thesis
    using c success_not_counted [of st q] by blast
qed

theorem login_quota_witness:
  "status (login_handler (login_request ''demo'' ''letmein1'')) = 401 \<and>
   status (login_handler (login_request ''demo'' ''password123'')) = 200 \<and>
   last (fst (serve (\<lambda>a. [])
     (map (\<lambda>t. login_attempt ''203.0.113.7'' t ''demo'' ''letmein1'') [0, 1000, 2000, 3000, 4000] @
      [login_attempt ''203.0.113.7'' 5000 ''demo'' ''password123'']))) =
     (login_attempt ''203.0.113.7'' 5000 ''demo'' ''password123'', False, rate_limited) \<and>
   admits (\<lambda>a. []) (login_attempt ''203.0.113.7'' 5000 ''demo'' ''password123'') \<and>
   fst (login_endpoint (\<lambda>a. []) (login_attempt ''203.0.113.7'' 5000 ''demo'' ''password123'')) =
     (\<lambda>a. []) \<and>
   length (charged ''203.0.113.7'' 5000 (fst (serve (\<lambda>a. [])
     (map (\<lambda>t. login_attempt ''203.0.113.7'' t ''demo'' ''letmein1'') [0, 1000, 2000, 3000, 4000] @
      [login_attempt ''203.0.113.7'' 5000 ''demo'' ''password123''])))) \<le> 5"
proof -
  let ?qs = "map (\<lambda>t. login_attempt ''203.0.113.7'' t ''demo'' ''letmein1'') [0, 1000, 2000, 3000, 4000]"
  let ?q = "login_attempt ''203.0.113.7'' 5000 ''demo'' ''password123''"
  have bad: "status (login_handler (login_request ''demo'' ''letmein1'')) = 401"
    by (simp add: login_handler_def login_request_def eval_defs invalid_credentials_def failure_def)
  have good: "status (login_handler (login_request ''demo'' ''password123'')) = 200"
    by (simp add: login_handler_def login_request_def eval_defs success_def)
  have adm: "admits (\<lambda>a. []) ?q"
    by (simp add: admits_def in_window_def loginLimiter_def)
  have five: "length ?qs = 5 \<and> source ?q = ''203.0.113.7'' \<and>
      (\<forall>q \<in> set ?qs. source q = ''203.0.113.7'' \<and> status (login_handler (payload q)) \<noteq> 200 \<and>
                      time_ms ?q < time_ms q + 900000)"
    using bad by (simp add: login_attempt_def)
  note t = login_quota [of "''203.0.113.7''" 5000 "\<lambda>a. []" ?qs ?q ?q]
  note t' = login_quota [of "''203.0.113.7''" 5000 "\<lambda>a. []" "?qs @ [?q]" ?q ?q]
  have "fst (serve (\<lambda>a. []) (?qs @ [?q])) = fst (serve (\<lambda>a. []) ?qs) @ [(?q, False, rate_limited)]"
    using t five by blast
  then have "last (fst (serve (\<lambda>a. []) (?qs @ [?q]))) = (?q, False, rate_limited)"
    by (simp only: last_snoc)
  moreover have "fst (login_endpoint (\<lambda>a. []) ?q) = (\<lambda>a. [])"
    using t adm good by (simp add: login_attempt_def)
  ultimately show ?thesis
    using bad good adm t' by blast
qed

end
